theory Spec2Isabelle
  imports Complex_Main "HOL-Library.Multiset" "HOL-Library.Sublist"
begin

section \<open>Data model\<close>

text \<open>
  Numbers: a JavaScript \<open>Date\<close> is modelled by its time value, an \<open>int\<close> of milliseconds
  since the epoch. Minutes and hours are JavaScript numbers; they are modelled as exact
  rationals (\<open>rat\<close>), so the rounding of IEEE doubles is idealised away. Counts
  (\<open>length\<close>) are naturals.
\<close>

text \<open>
  \<open>config.since\<close> and \<open>config.until\<close>: the literal \<open>'always'\<close>, a falsy value
  (\<open>Unset\<close>: the test \<open>!config.since\<close> of the source), or an instant that
  \<open>moment(...).isAfter\<close> / \<open>isBefore\<close> compares with, in milliseconds.
\<close>

datatype bound = Always | Unset | Instant int

text \<open>The module-level \<open>config\<close> object of \<open>utils.js\<close>, passed explicitly.\<close>

record config =
  maxCommitDiffInMinutes :: rat
  firstCommitAdditionInMinutes :: rat
  since :: bound
  until :: bound
  mergeRequest :: bool
  emailAliases :: "(string \<rightharpoonup> string) option"
  branch :: "string option"

text \<open>The values of the \<open>config\<close> literal, lines 7 to 26 of \<open>utils.js\<close>.\<close>

definition config_default :: config where
  "config_default =
     \<lparr> maxCommitDiffInMinutes = 60,
       firstCommitAdditionInMinutes = 30,
       since = Always,
       until = Always,
       mergeRequest = True,
       emailAliases = Some Map.empty,
       branch = None \<rparr>"

section \<open>The session-hour estimator\<close>

text \<open>
  \<open>Array.prototype.sort(compareFn)\<close>: a stable sort that places \<open>a\<close> before \<open>b\<close>
  when \<open>compareFn(a, b) \<le> 0\<close>. The algorithm of the engine is not fixed by the
  language; a stable insertion sort driven by the comparator stands for it. The sort
  works in place: the sorted list is both the returned array and the new contents of
  the receiver.
\<close>

fun insert_by :: "('a \<Rightarrow> 'a \<Rightarrow> int) \<Rightarrow> 'a \<Rightarrow> 'a list \<Rightarrow> 'a list" where
  "insert_by cmp x [] = [x]"
| "insert_by cmp x (y # ys) =
     (if cmp x y \<le> 0 then x # y # ys else y # insert_by cmp x ys)"

definition array_sort :: "('a \<Rightarrow> 'a \<Rightarrow> int) \<Rightarrow> 'a list \<Rightarrow> 'a list" where
  "array_sort cmp xs = foldr (insert_by cmp) xs []"

text \<open>\<open>(date - lastDate) / 1000 / 60\<close>\<close>

definition diffInMinutes :: "int \<Rightarrow> int \<Rightarrow> rat" where
  "diffInMinutes date lastDate = of_int (date - lastDate) / 1000 / 60"

text \<open>
  The body of the \<open>_.forEach\<close> callback of \<open>estimateHours\<close>, as a step on the two
  variables it updates: \<open>currentMinutes\<close> and \<open>lastDate\<close> (\<open>None\<close> for \<open>null\<close>).
\<close>

fun forEach_date :: "config \<Rightarrow> rat \<times> int option \<Rightarrow> int \<Rightarrow> rat \<times> int option" where
  "forEach_date cfg (currentMinutes, None) date = (currentMinutes, Some date)"
| "forEach_date cfg (currentMinutes, Some lastDate) date =
     (if diffInMinutes date lastDate < maxCommitDiffInMinutes cfg
      then (currentMinutes + diffInMinutes date lastDate, Some date)
      else (currentMinutes
              + min (diffInMinutes date lastDate) (firstCommitAdditionInMinutes cfg),
            Some date))"

text \<open>
  \<open>estimateHours(dates)\<close>: the first component is the returned number, the second is
  the contents of the caller's array \<open>dates\<close> after the call.
\<close>

definition estimateHours :: "config \<Rightarrow> int list \<Rightarrow> rat \<times> int list" where
  "estimateHours cfg dates =
     (let sortedDates = array_sort (\<lambda>a b. a - b) dates;
          (currentMinutes, lastDate) =
             foldl (forEach_date cfg) (firstCommitAdditionInMinutes cfg, None) sortedDates
      in (currentMinutes / 60, sortedDates))"

section \<open>Commits, histories and repositories\<close>

text \<open>
  Every rejected promise and every thrown exception of the source is a value:
  \<open>TypeError\<close> for reading a property of \<open>null\<close> or \<open>undefined\<close>,
  \<open>RepositoryError\<close> for a rejected \<open>git.Repository.open\<close>, \<open>ReferenceNamesError\<close>
  for a rejected \<open>repo.getReferenceNames\<close>, \<open>BranchError\<close> for a rejected
  \<open>getBranchLatestCommit\<close>, and \<open>HistoryError\<close> for the \<open>'error'\<close> event of a
  history walk.
\<close>

datatype error =
  TypeError | RepositoryError | ReferenceNamesError | BranchError | HistoryError string

text \<open>The \<open>author\<close> object that \<open>getBranchCommits\<close> builds.\<close>

record author =
  name :: string
  email :: string

text \<open>
  The \<open>commitData\<close> object of \<open>getBranchCommits\<close>; \<open>author = None\<close> is the
  \<open>null\<close> that the source stores when \<open>commit.author()\<close> is null. A commit emitted
  by the history walker is seen through the same four accessors (\<open>sha()\<close>,
  \<open>date()\<close>, \<open>message()\<close>, \<open>author()\<close>), so it is modelled by the same record.
\<close>

record commitData =
  sha :: string
  date :: int
  message :: string
  author :: "author option"

text \<open>
  The events of \<open>branchLatestCommit.history()\<close>: \<open>'commit'\<close> events, closed by
  \<open>'end'\<close> or by \<open>'error'\<close>.
\<close>

datatype history = End | Error string | Commit commitData history

text \<open>
  What the source reads of a nodegit repository: the names of all references
  (\<open>None\<close> when \<open>repo.getReferenceNames\<close> rejects), and for a reference name the
  history of the commit that \<open>getBranchLatestCommit\<close> resolves to (\<open>None\<close> when that
  promise is rejected).
\<close>

record repository =
  getReferenceNames :: "string list option"
  branchHistory :: "string \<Rightarrow> history option"

section \<open>The history walker and its range filter\<close>

definition sinceAlways :: "config \<Rightarrow> bool" where
  "sinceAlways cfg = (since cfg = Always \<or> since cfg = Unset)"

definition untilAlways :: "config \<Rightarrow> bool" where
  "untilAlways cfg = (until cfg = Always \<or> until cfg = Unset)"

text \<open>
  \<open>moment(d).isAfter(b)\<close> and \<open>moment(d).isBefore(b)\<close> on an instant \<open>b\<close>; the other
  cases are never reached, the source tests \<open>sinceAlways\<close> and \<open>untilAlways\<close> first.
\<close>

fun isAfter :: "int \<Rightarrow> bound \<Rightarrow> bool" where
  "isAfter d (Instant b) = (b < d)"
| "isAfter d _ = False"

fun isBefore :: "int \<Rightarrow> bound \<Rightarrow> bool" where
  "isBefore d (Instant b) = (d < b)"
| "isBefore d _ = False"

definition isValidSince :: "config \<Rightarrow> commitData \<Rightarrow> bool" where
  "isValidSince cfg c =
     (if sinceAlways cfg \<or> isAfter (date c) (since cfg) then True else False)"

definition isValidUntil :: "config \<Rightarrow> commitData \<Rightarrow> bool" where
  "isValidUntil cfg c =
     (if untilAlways cfg \<or> isBefore (date c) (until cfg) then True else False)"

text \<open>
  The three handlers of \<open>getBranchCommits\<close>, run over the events with the array
  \<open>commits\<close> that the \<open>'commit'\<close> handler pushes to.
\<close>

fun history_on :: "config \<Rightarrow> history \<Rightarrow> commitData list \<Rightarrow> error + commitData list" where
  "history_on cfg End commits = Inr commits"
| "history_on cfg (Error err) commits = Inl (HistoryError err)"
| "history_on cfg (Commit c h) commits =
     history_on cfg h
       (if isValidSince cfg c \<and> isValidUntil cfg c then commits @ [c] else commits)"

definition getBranchCommits :: "config \<Rightarrow> history \<Rightarrow> error + commitData list" where
  "getBranchCommits cfg h = history_on cfg h []"

text \<open>The commits that a history emits, in order (an observation, for stating properties of the walk).\<close>

fun history_commits :: "history \<Rightarrow> commitData list" where
  "history_commits End = []"
| "history_commits (Error err) = []"
| "history_commits (Commit c h) = c # history_commits h"

section \<open>Collecting the commits of all branches\<close>

text \<open>
  Mapping a function that may fail over an array: the results in order, or the first
  failure. It stands for \<open>.map\<close> on a promise of an array with a mapper that may
  reject, and for \<open>_.map\<close> with a callback that may throw. The mappers of the
  promise run concurrently, and when several reject the source rejects with the first
  rejection in time; the model takes the first in the order of the array.
\<close>

fun map_result :: "('a \<Rightarrow> error + 'b) \<Rightarrow> 'a list \<Rightarrow> error + 'b list" where
  "map_result f [] = Inr []"
| "map_result f (x # xs) =
     (case f x of
        Inl e \<Rightarrow> Inl e
      | Inr y \<Rightarrow> (case map_result f xs of Inl e \<Rightarrow> Inl e | Inr ys \<Rightarrow> Inr (y # ys)))"

text \<open>
  \<open>reference.match(/refs\/heads\/.*/)\<close>: the pattern is not anchored, so it matches
  when \<open>refs/heads/\<close> occurs anywhere in the name.
\<close>

fun match_heads :: "string \<Rightarrow> bool" where
  "match_heads [] = False"
| "match_heads (c # cs) = (prefix ''refs/heads/'' (c # cs) \<or> match_heads cs)"

definition getAllReferences :: "repository \<Rightarrow> error + string list" where
  "getAllReferences repo =
     (case getReferenceNames repo of
        None \<Rightarrow> Inl ReferenceNamesError
      | Some names \<Rightarrow> Inr names)"

definition getBranchLatestCommit :: "repository \<Rightarrow> string \<Rightarrow> error + history" where
  "getBranchLatestCommit repo branchName =
     (case branchHistory repo branchName of None \<Rightarrow> Inl BranchError | Some h \<Rightarrow> Inr h)"

text \<open>
  \<open>_.uniq(commits, iteratee)\<close>: the first element for each value of the iteratee, in
  the order of the array; \<open>seen\<close> holds the values met so far.
\<close>

fun baseUniq :: "('a \<Rightarrow> 'k) \<Rightarrow> 'a list \<Rightarrow> 'k list \<Rightarrow> 'a list" where
  "baseUniq iteratee [] seen = []"
| "baseUniq iteratee (x # xs) seen =
     (if iteratee x \<in> set seen then baseUniq iteratee xs seen
      else x # baseUniq iteratee xs (iteratee x # seen))"

definition uniq :: "'a list \<Rightarrow> ('a \<Rightarrow> 'k) \<Rightarrow> 'a list" where
  "uniq array iteratee = baseUniq iteratee array []"

text \<open>The \<open>.reduce\<close> of \<open>getCommits\<close>: every commit of every branch pushed to one array.\<close>

definition allCommits :: "commitData list list \<Rightarrow> commitData list" where
  "allCommits branches = foldl (\<lambda>acc branchCommits. acc @ branchCommits) [] branches"

text \<open>The callback of \<open>uniqueCommits.filter\<close>.\<close>

definition mergeFilter :: "config \<Rightarrow> commitData \<Rightarrow> bool" where
  "mergeFilter cfg commit =
     (if \<not> mergeRequest cfg \<and> prefix ''Merge '' (message commit) then False else True)"

text \<open>The last \<open>.then\<close> of \<open>getCommits\<close>.\<close>

definition uniqueFiltered :: "config \<Rightarrow> commitData list \<Rightarrow> commitData list" where
  "uniqueFiltered cfg commits =
     (let uniqueCommits = uniq commits sha in filter (mergeFilter cfg) uniqueCommits)"

text \<open>The reference filter: \<open>if (branch)\<close> holds for a non-empty string.\<close>

definition filterReferences :: "string option \<Rightarrow> string list \<Rightarrow> string list" where
  "filterReferences branch_arg allReferences =
     (case branch_arg of
        Some b \<Rightarrow>
          (if b \<noteq> [] then filter (\<lambda>reference. reference = ''refs/heads/'' @ b) allReferences
           else filter match_heads allReferences)
      | None \<Rightarrow> filter match_heads allReferences)"

text \<open>
  \<open>getCommits(gitPath, branch)\<close>; \<open>open_repo\<close> stands for \<open>git.Repository.open\<close>
  (\<open>None\<close> when it rejects), and \<open>branch_arg\<close> for the parameter \<open>branch\<close>.
\<close>

definition getCommits ::
  "config \<Rightarrow> (string \<Rightarrow> repository option) \<Rightarrow> string \<Rightarrow> string option
     \<Rightarrow> error + commitData list" where
  "getCommits cfg open_repo gitPath branch_arg =
     (case open_repo gitPath of
        None \<Rightarrow> Inl RepositoryError
      | Some repo \<Rightarrow>
          (case getAllReferences repo of
             Inl e \<Rightarrow> Inl e
           | Inr allReferences \<Rightarrow>
               (case map_result (getBranchLatestCommit repo)
                       (filterReferences branch_arg allReferences) of
                  Inl e \<Rightarrow> Inl e
                | Inr latest \<Rightarrow>
                    (case map_result (getBranchCommits cfg) latest of
                       Inl e \<Rightarrow> Inl e
                     | Inr branches \<Rightarrow> Inr (uniqueFiltered cfg (allCommits branches))))))"

section \<open>Objects with string keys\<close>

text \<open>
  A plain JavaScript object as the list of its own properties in creation order.
  Assigning to an existing key replaces the value where it stands; assigning to a new
  key appends. Keys are ordinary data properties: names with a meaning of their own on
  \<open>Object.prototype\<close> (such as \<open>__proto__\<close>) are outside the model.
\<close>

type_synonym 'v obj = "(string \<times> 'v) list"

fun obj_set :: "'v obj \<Rightarrow> string \<Rightarrow> 'v \<Rightarrow> 'v obj" where
  "obj_set [] k v = [(k, v)]"
| "obj_set ((k', v') # kvs) k v =
     (if k' = k then (k, v) # kvs else (k', v') # obj_set kvs k v)"

text \<open>
  The order in which an object enumerates its keys (\<open>Object.keys\<close>, which \<open>_.map\<close>
  and \<open>_.reduce\<close> follow on objects, and \<open>JSON.stringify\<close>): the keys that are array
  indices (canonical decimal numerals below \<open>2^32 - 1\<close>) first, in numeric order, and
  then the other keys in creation order.
\<close>

definition is_digit :: "char \<Rightarrow> bool" where
  "is_digit c = (48 \<le> (of_char c :: int) \<and> (of_char c :: int) \<le> 57)"

definition dec_value :: "string \<Rightarrow> int" where
  "dec_value k = foldl (\<lambda>n c. 10 * n + (of_char c - 48)) 0 k"

definition is_array_index :: "string \<Rightarrow> bool" where
  "is_array_index k =
     (k \<noteq> [] \<and> list_all is_digit k \<and> (k = ''0'' \<or> hd k \<noteq> CHR ''0'')
      \<and> dec_value k < 4294967295)"

definition own_entries :: "'v obj \<Rightarrow> (string \<times> 'v) list" where
  "own_entries ob =
     sort_key (\<lambda>kv. dec_value (fst kv)) (filter (\<lambda>kv. is_array_index (fst kv)) ob)
     @ filter (\<lambda>kv. \<not> is_array_index (fst kv)) ob"

section \<open>Grouping by author and the report\<close>

text \<open>
  The iteratee of \<open>_.groupBy\<close> in \<open>extractData\<close>. \<open>commit.author.email\<close> throws a
  \<open>TypeError\<close> when \<open>commit.author\<close> is \<open>null\<close>; an empty email is falsy and becomes
  \<open>'unknown'\<close>; the alias lookup comes after that. The alias object is modelled by its
  own entries: a lookup of the source also finds what the object inherits from
  \<open>Object.prototype\<close> (under emails such as \<open>constructor\<close> or \<open>toString\<close>), which
  the model leaves out.
\<close>

definition commitEmail :: "config \<Rightarrow> commitData \<Rightarrow> error + string" where
  "commitEmail cfg commit =
     (case author commit of
        None \<Rightarrow> Inl TypeError
      | Some a \<Rightarrow>
          (let email = (if author.email a = [] then ''unknown'' else author.email a)
           in Inr (case emailAliases cfg of
                     None \<Rightarrow> email
                   | Some aliases \<Rightarrow>
                       (case aliases email of None \<Rightarrow> email | Some alias \<Rightarrow> alias))))"

text \<open>
  \<open>_.groupBy\<close>: a value is pushed to the array under its key, or starts a new array
  under a new key.
\<close>

definition group_add :: "'a list obj \<Rightarrow> string \<Rightarrow> 'a \<Rightarrow> 'a list obj" where
  "group_add result key v =
     (case map_of result key of
        Some vs \<Rightarrow> obj_set result key (vs @ [v])
      | None \<Rightarrow> obj_set result key [v])"

fun groupBy_loop ::
  "('a \<Rightarrow> error + string) \<Rightarrow> 'a list \<Rightarrow> 'a list obj \<Rightarrow> error + 'a list obj" where
  "groupBy_loop iteratee [] result = Inr result"
| "groupBy_loop iteratee (x # xs) result =
     (case iteratee x of
        Inl e \<Rightarrow> Inl e
      | Inr key \<Rightarrow> groupBy_loop iteratee xs (group_add result key x))"

definition groupBy :: "'a list \<Rightarrow> ('a \<Rightarrow> error + string) \<Rightarrow> error + 'a list obj" where
  "groupBy collection iteratee = groupBy_loop iteratee collection []"

text \<open>The objects of the array \<open>authorWorks\<close>.\<close>

record authorWork =
  email :: string
  name :: string
  hours :: rat
  commits :: nat

text \<open>
  The callback of \<open>_.map(commitsByEmail, ...)\<close>. \<open>authorCommits[0].author.name\<close>
  throws when the array is empty or the author is \<open>null\<close>; \<open>_.pluck\<close> builds a
  fresh array of the dates, which \<open>estimateHours\<close> then sorts.
\<close>

definition authorWork_of :: "config \<Rightarrow> string \<times> commitData list \<Rightarrow> error + authorWork" where
  "authorWork_of cfg kv =
     (case kv of (authorEmail, authorCommits) \<Rightarrow>
        (case authorCommits of
           [] \<Rightarrow> Inl TypeError
         | c0 # _ \<Rightarrow>
             (case author c0 of
                None \<Rightarrow> Inl TypeError
              | Some a \<Rightarrow>
                  Inr \<lparr> email = authorEmail,
                        name = author.name a,
                        hours = fst (estimateHours cfg (map date authorCommits)),
                        commits = length authorCommits \<rparr>)))"

definition authorWorks :: "config \<Rightarrow> commitData list \<Rightarrow> error + authorWork list" where
  "authorWorks cfg cs =
     (case groupBy cs (commitEmail cfg) of
        Inl e \<Rightarrow> Inl e
      | Inr commitsByEmail \<Rightarrow> map_result (authorWork_of cfg) (own_entries commitsByEmail))"

text \<open>
  The values of the report object: \<open>_.omit(authorWork, 'email')\<close> for an author, and
  the object with \<open>hours\<close> and \<open>commits\<close> stored under \<open>total\<close>.
\<close>

datatype reportEntry = AuthorEntry string rat nat | TotalEntry rat nat

fun entry_hours :: "reportEntry \<Rightarrow> rat" where
  "entry_hours (AuthorEntry n h c) = h"
| "entry_hours (TotalEntry h c) = h"

definition omit_email :: "authorWork \<Rightarrow> reportEntry" where
  "omit_email w = AuthorEntry (authorWork.name w) (hours w) (commits w)"

text \<open>The \<open>_.each\<close> over \<open>_.sortBy(authorWorks, 'hours')\<close>, a stable ascending sort.\<close>

definition sortedWork_authors :: "authorWork list \<Rightarrow> reportEntry obj" where
  "sortedWork_authors works =
     foldl (\<lambda>sortedWork w. obj_set sortedWork (authorWork.email w) (omit_email w)) []
       (sort_key hours works)"

text \<open>The \<open>_.reduce\<close> that sums the hours of the entries of \<open>sortedWork\<close>.\<close>

definition totalHours :: "reportEntry obj \<Rightarrow> rat" where
  "totalHours sortedWork =
     foldl (\<lambda>sum e. sum + entry_hours e) 0 (map snd (own_entries sortedWork))"

text \<open>
  The object \<open>sortedWork\<close> as it stands before the \<open>return\<close> of \<open>extractData\<close>, from
  the array \<open>commits\<close> that \<open>getCommits\<close> resolved to.
\<close>

definition sortedWork :: "config \<Rightarrow> commitData list \<Rightarrow> error + reportEntry obj" where
  "sortedWork cfg cs =
     (case authorWorks cfg cs of
        Inl e \<Rightarrow> Inl e
      | Inr works \<Rightarrow>
          (let authors = sortedWork_authors works
           in Inr (obj_set authors ''total'' (TotalEntry (totalHours authors) (length cs)))))"

text \<open>
  \<open>extractData(path)\<close>: the value the returned promise resolves to is
  \<open>sortedWork.total.hours\<close>.
\<close>

definition extractData ::
  "config \<Rightarrow> (string \<Rightarrow> repository option) \<Rightarrow> string \<Rightarrow> error + rat" where
  "extractData cfg open_repo path =
     (case getCommits cfg open_repo path (branch cfg) of
        Inl e \<Rightarrow> Inl e
      | Inr cs \<Rightarrow>
          (case sortedWork cfg cs of
             Inl e \<Rightarrow> Inl e
           | Inr sw \<Rightarrow>
               (case map_of sw ''total'' of
                  None \<Rightarrow> Inl TypeError
                | Some total_entry \<Rightarrow> Inr (entry_hours total_entry))))"

section \<open>The estimator as the specification words it\<close>

text \<open>
  The credit of one consecutive difference: the difference itself below the session
  gap threshold, and otherwise the smaller of the difference and the first-commit bonus.
\<close>

definition spec_credit :: "config \<Rightarrow> rat \<Rightarrow> rat" where
  "spec_credit cfg diff =
     (if diff < maxCommitDiffInMinutes cfg then diff
      else min diff (firstCommitAdditionInMinutes cfg))"

text \<open>The sum \<open>S\<close> of the credits of all consecutive pairs of a list of timestamps.\<close>

fun spec_sessionMinutes :: "config \<Rightarrow> int list \<Rightarrow> rat" where
  "spec_sessionMinutes cfg (a # b # ts) =
     spec_credit cfg (diffInMinutes b a) + spec_sessionMinutes cfg (b # ts)"
| "spec_sessionMinutes cfg ts = 0"

section \<open>Example data\<close>

definition ex_author :: author where
  "ex_author = \<lparr> author.name = ''Alice'', author.email = ''alice@example.org'' \<rparr>"

definition ex_commit :: "string \<Rightarrow> int \<Rightarrow> string \<Rightarrow> commitData" where
  "ex_commit i d m = \<lparr> sha = i, date = d, message = m, author = Some ex_author \<rparr>"

definition ex_range :: config where
  "ex_range = config_default \<lparr> since := Instant 100, until := Instant 200 \<rparr>"

definition ex_history :: history where
  "ex_history =
     Commit (ex_commit ''c'' 200 ''late'')
       (Commit (ex_commit ''b'' 150 ''inside'') (Commit (ex_commit ''a'' 100 ''early'') End))"

definition ex_orphan :: commitData where
  "ex_orphan = \<lparr> sha = ''d'', date = 0, message = ''no author'', author = None \<rparr>"

definition ex_repo :: "history \<Rightarrow> repository" where
  "ex_repo h =
     \<lparr> getReferenceNames = Some [''refs/heads/main'', ''refs/tags/v1''],
       branchHistory = (\<lambda>r. if r = ''refs/heads/main'' then Some h else None) \<rparr>"

definition ex_open :: "history \<Rightarrow> string \<Rightarrow> repository option" where
  "ex_open h p = Some (ex_repo h)"

definition ex_bob :: author where
  "ex_bob = \<lparr> author.name = ''Bob'', author.email = ''bob@example.org'' \<rparr>"

definition ex_commit_by :: "author \<Rightarrow> string \<Rightarrow> int \<Rightarrow> string \<Rightarrow> commitData" where
  "ex_commit_by a i d m = \<lparr> sha = i, date = d, message = m, author = Some a \<rparr>"

text \<open>
  Alice commits at 09:00, 09:20 and 11:30 and Bob at 10:00, in milliseconds after
  09:00; the history emits the newest commit first.
\<close>

definition ex_team :: "commitData list" where
  "ex_team =
     [ex_commit ''a3'' 9000000 ''third'', ex_commit_by ex_bob ''b1'' 3600000 ''bob'',
      ex_commit ''a2'' 1200000 ''second'', ex_commit ''a1'' 0 ''first'']"

definition ex_team_history :: history where
  "ex_team_history = foldr Commit ex_team End"

text \<open>
  An author whose email is the string \<open>total\<close>, with two commits fifteen minutes
  apart, beside one commit of Bob.
\<close>

definition ex_tot :: author where
  "ex_tot = \<lparr> author.name = ''Tot'', author.email = ''total'' \<rparr>"

definition ex_total_team :: "commitData list" where
  "ex_total_team =
     [ex_commit_by ex_tot ''t2'' 900000 ''second'', ex_commit_by ex_bob ''b1'' 0 ''bob'',
      ex_commit_by ex_tot ''t1'' 0 ''first'']"

definition ex_total_history :: history where
  "ex_total_history = foldr Commit ex_total_team End"

section \<open>Properties of the estimator\<close>

lemma insert_by_minus: "insert_by (\<lambda>a b. a - b) (x::int) ys = insort x ys"
  by (induction ys) auto

lemma array_sort_minus: "array_sort (\<lambda>a b. a - b) (xs::int list) = sort xs"
  by (induction xs) (simp_all add: array_sort_def insert_by_minus)

lemma foldl_forEach_date:
  "foldl (forEach_date cfg) (m, Some l) ts =
     (m + spec_sessionMinutes cfg (l # ts), Some (last (l # ts)))"
  by (induction ts arbitrary: m l) (auto simp: spec_credit_def)

lemma foldl_forEach_date_start:
  "fst (foldl (forEach_date cfg) (m, None) ts) = m + spec_sessionMinutes cfg ts"
  by (cases ts) (simp_all add: foldl_forEach_date)

lemma estimateHours_sorted_sum:
  "fst (estimateHours cfg dates) =
     (firstCommitAdditionInMinutes cfg + spec_sessionMinutes cfg (sort dates)) / 60"
  using foldl_forEach_date_start [of cfg "firstCommitAdditionInMinutes cfg" "sort dates"]
  by (simp add: estimateHours_def array_sort_minus Let_def case_prod_beta)

lemma estimateHours_array: "snd (estimateHours cfg dates) = sort dates"
  by (simp add: estimateHours_def array_sort_minus Let_def case_prod_beta)

text \<open>
  C1. For every non-empty list of commit timestamps, \<open>estimateHours\<close> returns
  \<open>(firstCommitAdditionInMinutes + S) / 60\<close>, where \<open>S\<close> adds, over the ascending
  sorted timestamps, for each consecutive pair the difference in minutes when it is
  strictly below \<open>maxCommitDiffInMinutes\<close> and the minimum of the difference and
  \<open>firstCommitAdditionInMinutes\<close> otherwise. A single timestamp yields
  \<open>firstCommitAdditionInMinutes / 60\<close>, which is one half with the default
  configuration, and a difference equal to the threshold takes the capped branch.
\<close>

theorem estimateHours_formula:
  assumes "dates \<noteq> []"
  shows "fst (estimateHours cfg dates) =
           (firstCommitAdditionInMinutes cfg + spec_sessionMinutes cfg (sort dates)) / 60
         \<and> fst (estimateHours cfg [t]) = firstCommitAdditionInMinutes cfg / 60
         \<and> fst (estimateHours config_default [t]) = 1 / 2
         \<and> (t1 \<le> t2 \<and> diffInMinutes t2 t1 = maxCommitDiffInMinutes cfg \<longrightarrow>
              fst (estimateHours cfg [t1, t2]) =
                (firstCommitAdditionInMinutes cfg
                   + min (maxCommitDiffInMinutes cfg) (firstCommitAdditionInMinutes cfg)) / 60)"
proof -
  have single: "fst (estimateHours c [t]) = firstCommitAdditionInMinutes c / 60" for c
    by (simp add: estimateHours_sorted_sum)
  have gap: "fst (estimateHours cfg [t1, t2]) =
      (firstCommitAdditionInMinutes cfg
         + min (maxCommitDiffInMinutes cfg) (firstCommitAdditionInMinutes cfg)) / 60"
    if "t1 \<le> t2" "diffInMinutes t2 t1 = maxCommitDiffInMinutes cfg"
  proof -
    have "sort [t1, t2] = [t1, t2]"
      using that(1) by simp
    then show ?thesis
      using that(2) by (simp add: estimateHours_sorted_sum spec_credit_def)
  qed
  show ?thesis
    using single [of cfg] single [of config_default] gap
    by (simp add: estimateHours_sorted_sum config_default_def)
qed

theorem estimateHours_formula_witness:
  "[0, 5400000, 1200000] \<noteq> ([]::int list)
   \<and> fst (estimateHours config_default [0, 5400000, 1200000]) = 4 / 3
   \<and> spec_sessionMinutes config_default (sort [0, 5400000, 1200000]) = 50
   \<and> fst (estimateHours config_default [7]) = 1 / 2
   \<and> (0::int) \<le> 3600000 \<and> diffInMinutes 3600000 0 = maxCommitDiffInMinutes config_default
   \<and> fst (estimateHours config_default [0, 3600000]) = 1"
  using estimateHours_formula [of "[0, 5400000, 1200000]" config_default 7 0 3600000]
  by (simp add: config_default_def spec_credit_def diffInMinutes_def)

text \<open>
  C4. \<open>estimateHours\<close> is invariant under permutation of its input list: two lists with
  the same elements (counted with multiplicity) give the same hours.
\<close>

theorem estimateHours_permutation:
  assumes "mset dates' = mset dates"
  shows "fst (estimateHours cfg dates') = fst (estimateHours cfg dates)"
proof -
  have "sort dates' = sort dates"
    using assms by (intro properties_for_sort) simp_all
  then show ?thesis
    by (simp add: estimateHours_sorted_sum)
qed

theorem estimateHours_permutation_witness:
  "mset [5400000, 0, 1200000] = mset [0, 1200000, 5400000 :: int]
   \<and> fst (estimateHours config_default [5400000, 0, 1200000]) = 4 / 3
   \<and> fst (estimateHours config_default [0, 1200000, 5400000]) = 4 / 3"
proof -
  have p: "mset [5400000, 0, 1200000] = mset [0, 1200000, 5400000 :: int]"
    by simp
  have v: "fst (estimateHours config_default [0, 1200000, 5400000]) = 4 / 3"
    by (simp add: estimateHours_sorted_sum config_default_def spec_credit_def
        diffInMinutes_def)
  show ?thesis
    using p v estimateHours_permutation [OF p, of config_default] by simp
qed

text \<open>
  C10. \<open>estimateHours\<close> sorts its argument array in place: after the call the caller's
  list holds the same timestamps, in ascending order.
\<close>

theorem estimateHours_sorts_argument:
  "sorted (snd (estimateHours cfg dates))
   \<and> mset (snd (estimateHours cfg dates)) = mset dates"
  by (simp add: estimateHours_array)

theorem estimateHours_sorts_argument_witness:
  "snd (estimateHours config_default [5400000, 0, 1200000]) = [0, 1200000, 5400000]
   \<and> sorted (snd (estimateHours config_default [5400000, 0, 1200000]))"
  using estimateHours_sorts_argument [of config_default "[5400000, 0, 1200000]"]
  by (simp add: estimateHours_array)

section \<open>Properties of the merge of the branches\<close>



lemma set_baseUniq: "f ` set (baseUniq f xs seen) = f ` set xs - set seen"
  by (induction xs arbitrary: seen) auto

lemma distinct_baseUniq: "distinct (map f (baseUniq f xs seen))"
proof (induction xs arbitrary: seen)
  case Nil
  show ?case by simp
next
  case (Cons x xs)
  have "f x \<notin> f ` set (baseUniq f xs (f x # seen))"
    by (simp add: set_baseUniq)
  with Cons show ?case by simp
qed




section \<open>Properties of the range filter\<close>

lemma history_on_filter:
  "history_on cfg h acc = Inr cs \<Longrightarrow>
     cs = acc @ filter (\<lambda>c. isValidSince cfg c \<and> isValidUntil cfg c) (history_commits h)"
proof (induction h arbitrary: acc)
  case (Commit c h)
  from Commit.prems
  have "history_on cfg h
          (if isValidSince cfg c \<and> isValidUntil cfg c then acc @ [c] else acc) = Inr cs"
    by simp
  from Commit.IH [OF this] show ?case
    by simp
qed simp_all

lemma isValidSince_iff:
  "isValidSince cfg c = (sinceAlways cfg \<or> (\<exists>s. since cfg = Instant s \<and> s < date c))"
  by (cases "since cfg") (simp_all add: isValidSince_def sinceAlways_def)

lemma isValidUntil_iff:
  "isValidUntil cfg c = (untilAlways cfg \<or> (\<exists>u. until cfg = Instant u \<and> date c < u))"
  by (cases "until cfg") (simp_all add: isValidUntil_def untilAlways_def)

text \<open>
  C6. The range filter is strict on both ends: a commit of the history is kept exactly
  when \<open>since\<close> is \<open>'always'\<close> (or not set) or the commit is strictly after the since
  instant, and \<open>until\<close> is \<open>'always'\<close> (or not set) or the commit is strictly before
  the until instant. A commit dated at the since instant, or at the until instant, is
  excluded.
\<close>

theorem range_filter_exclusive:
  assumes "getBranchCommits cfg h = Inr cs"
  shows "(c \<in> set cs \<longleftrightarrow>
            c \<in> set (history_commits h)
            \<and> (sinceAlways cfg \<or> (\<exists>s. since cfg = Instant s \<and> s < date c))
            \<and> (untilAlways cfg \<or> (\<exists>u. until cfg = Instant u \<and> date c < u)))
         \<and> (since cfg = Instant (date c) \<longrightarrow> c \<notin> set cs)
         \<and> (until cfg = Instant (date c) \<longrightarrow> c \<notin> set cs)"
proof -
  have cs: "cs = filter (\<lambda>c. isValidSince cfg c \<and> isValidUntil cfg c) (history_commits h)"
    using history_on_filter [of cfg h "[]" cs] assms by (simp add: getBranchCommits_def)
  show ?thesis
    unfolding cs by (auto simp: isValidSince_iff isValidUntil_iff sinceAlways_def untilAlways_def)
qed

theorem range_filter_exclusive_witness:
  "getBranchCommits ex_range ex_history = Inr [ex_commit ''b'' 150 ''inside'']
   \<and> since ex_range = Instant (date (ex_commit ''a'' 100 ''early''))
   \<and> ex_commit ''a'' 100 ''early'' \<notin> set [ex_commit ''b'' 150 ''inside'']
   \<and> until ex_range = Instant (date (ex_commit ''c'' 200 ''late''))
   \<and> ex_commit ''c'' 200 ''late'' \<notin> set [ex_commit ''b'' 150 ''inside'']"
proof -
  have run: "getBranchCommits ex_range ex_history = Inr [ex_commit ''b'' 150 ''inside'']"
    by (simp add: getBranchCommits_def ex_history_def ex_range_def config_default_def
        isValidSince_def isValidUntil_def sinceAlways_def untilAlways_def ex_commit_def)
  show ?thesis
    using run range_filter_exclusive [OF run, of "ex_commit ''a'' 100 ''early''"]
      range_filter_exclusive [OF run, of "ex_commit ''c'' 200 ''late''"]
    by (simp add: ex_range_def config_default_def ex_commit_def)
qed

section \<open>Properties of the merge filter\<close>

text \<open>
  C7. With merge-commit inclusion disabled, a commit is dropped by the merge filter
  exactly when its message starts with \<open>Merge \<close> (capital M, trailing space); with
  inclusion enabled nothing is dropped; a commit whose message is \<open>merge fix\<close> passes
  under both settings.
\<close>

theorem merge_filter_prefix:
  "(c \<in> set (uniq cs sha) \<longrightarrow>
      (c \<notin> set (uniqueFiltered cfg cs) \<longleftrightarrow>
         \<not> mergeRequest cfg \<and> (\<exists>rest. message c = ''Merge '' @ rest)))
   \<and> (mergeRequest cfg \<longrightarrow> uniqueFiltered cfg cs = uniq cs sha)
   \<and> (message c = ''merge fix'' \<longrightarrow> mergeFilter cfg c)"
  by (auto simp: uniqueFiltered_def mergeFilter_def prefix_def)

theorem merge_filter_prefix_witness:
  "ex_commit ''a'' 1 ''Merge branch x''
     \<in> set (uniq [ex_commit ''a'' 1 ''Merge branch x'', ex_commit ''b'' 2 ''merge fix''] sha)
   \<and> ex_commit ''a'' 1 ''Merge branch x''
     \<notin> set (uniqueFiltered (config_default \<lparr> mergeRequest := False \<rparr>)
              [ex_commit ''a'' 1 ''Merge branch x'', ex_commit ''b'' 2 ''merge fix''])
   \<and> uniqueFiltered (config_default \<lparr> mergeRequest := False \<rparr>)
      [ex_commit ''a'' 1 ''Merge branch x'', ex_commit ''b'' 2 ''merge fix''] =
     [ex_commit ''b'' 2 ''merge fix'']
   \<and> uniqueFiltered config_default
      [ex_commit ''a'' 1 ''Merge branch x'', ex_commit ''b'' 2 ''merge fix''] =
     [ex_commit ''a'' 1 ''Merge branch x'', ex_commit ''b'' 2 ''merge fix'']
   \<and> mergeFilter (config_default \<lparr> mergeRequest := False \<rparr>) (ex_commit ''b'' 2 ''merge fix'')
   \<and> mergeFilter config_default (ex_commit ''b'' 2 ''merge fix'')"
  using merge_filter_prefix [of "ex_commit ''a'' 1 ''Merge branch x''"
      "[ex_commit ''a'' 1 ''Merge branch x'', ex_commit ''b'' 2 ''merge fix'']"
      "config_default \<lparr> mergeRequest := False \<rparr>"]
    merge_filter_prefix [of "ex_commit ''b'' 2 ''merge fix''"
      "[ex_commit ''a'' 1 ''Merge branch x'', ex_commit ''b'' 2 ''merge fix'']"
      config_default]
  by (simp add: uniqueFiltered_def uniq_def mergeFilter_def config_default_def ex_commit_def)

section \<open>A branch restriction that matches no reference\<close>

lemma sortedWork_Nil: "sortedWork cfg [] = Inr [(''total'', TotalEntry 0 0)]"
  by (simp add: sortedWork_def authorWorks_def groupBy_def own_entries_def
      sortedWork_authors_def totalHours_def)

text \<open>
  C9. When a branch restriction is configured and the repository has no reference
  \<open>refs/heads/<branch>\<close>, the run raises no error: \<open>getCommits\<close> resolves to the
  empty list, the report holds no author entry and a total of zero hours and zero
  commits, and \<open>extractData\<close> resolves to zero.
\<close>

theorem missing_branch_empty_report:
  assumes "open_repo path = Some repo"
    and "getReferenceNames repo = Some allReferences"
    and "branch cfg = Some b" and "b \<noteq> []"
    and "''refs/heads/'' @ b \<notin> set allReferences"
  shows "getCommits cfg open_repo path (branch cfg) = Inr []
         \<and> sortedWork cfg [] = Inr [(''total'', TotalEntry 0 0)]
         \<and> extractData cfg open_repo path = Inr 0"
proof -
  have "filter (\<lambda>reference. reference = ''refs/heads/'' @ b) allReferences = []"
    using assms(5) by (auto simp: filter_empty_conv)
  then have refs: "filterReferences (branch cfg) allReferences = []"
    using assms(3,4) by (simp add: filterReferences_def)
  have commits: "getCommits cfg open_repo path (branch cfg) = Inr []"
    using assms(1,2) refs
    by (simp add: getCommits_def getAllReferences_def uniqueFiltered_def uniq_def
        allCommits_def)
  show ?thesis
    using commits by (simp add: extractData_def sortedWork_Nil)
qed

theorem missing_branch_empty_report_witness:
  "getReferenceNames (ex_repo ex_history) = Some [''refs/heads/main'', ''refs/tags/v1'']
   \<and> ''refs/heads/'' @ ''nope'' \<notin> set [''refs/heads/main'', ''refs/tags/v1'']
   \<and> getCommits (config_default \<lparr> branch := Some ''nope'' \<rparr>)
      (ex_open ex_history) ''.'' (Some ''nope'') = Inr []
   \<and> sortedWork (config_default \<lparr> branch := Some ''nope'' \<rparr>) [] =
       Inr [(''total'', TotalEntry 0 0)]
   \<and> extractData (config_default \<lparr> branch := Some ''nope'' \<rparr>)
       (ex_open ex_history) ''.'' = Inr 0"
  using missing_branch_empty_report [of "ex_open ex_history" "''.''"
      "ex_repo ex_history" "[''refs/heads/main'', ''refs/tags/v1'']"
      "config_default \<lparr> branch := Some ''nope'' \<rparr>" "''nope''"]
  by (simp add: ex_open_def ex_repo_def config_default_def)

section \<open>A commit without an author\<close>

lemma getCommits_single_branch:
  "getBranchCommits cfg h = Inr cs \<Longrightarrow> branch cfg = None \<Longrightarrow>
     getCommits cfg (ex_open h) path (branch cfg) = Inr (uniqueFiltered cfg cs)"
  by (simp add: getCommits_def getAllReferences_def ex_open_def ex_repo_def
      filterReferences_def getBranchLatestCommit_def allCommits_def)

text \<open>
  C3, at a commit that carries no author: \<open>getBranchCommits\<close> stores \<open>author: null\<close>
  for it, and the grouping callback of \<open>extractData\<close> then fails with a
  \<open>TypeError\<close>, which is what \<open>extractData\<close> rejects with. The commit does not reach
  an \<open>unknown\<close> group.
\<close>

theorem null_author_TypeError:
  "getBranchCommits config_default (Commit ex_orphan End) = Inr [ex_orphan]
   \<and> commitEmail config_default ex_orphan = Inl TypeError
   \<and> extractData config_default (ex_open (Commit ex_orphan End)) ''.'' =
       Inl TypeError"
proof -
  have walk: "getBranchCommits config_default (Commit ex_orphan End) = Inr [ex_orphan]"
    by (simp add: getBranchCommits_def config_default_def isValidSince_def isValidUntil_def
        sinceAlways_def untilAlways_def)
  have none: "branch config_default = None"
    by (simp add: config_default_def)
  have email: "commitEmail config_default ex_orphan = Inl TypeError"
    by (simp add: commitEmail_def ex_orphan_def)
  have uf: "uniqueFiltered config_default [ex_orphan] = [ex_orphan]"
    by (simp add: uniqueFiltered_def uniq_def mergeFilter_def config_default_def)
  have "sortedWork config_default [ex_orphan] = Inl TypeError"
    using email by (simp add: sortedWork_def authorWorks_def groupBy_def)
  then show ?thesis
    using walk email uf getCommits_single_branch [OF walk none, of "''.''"]
    by (simp add: extractData_def)
qed

section \<open>Properties of objects\<close>

lemma map_of_obj_set: "map_of (obj_set ob k v) = (map_of ob)(k \<mapsto> v)"
  by (induction ob) auto

lemma obj_set_new: "k \<notin> fst ` set ob \<Longrightarrow> obj_set ob k v = ob @ [(k, v)]"
  by (induction ob) auto

lemma keys_obj_set:
  "map fst (obj_set ob k v) = (if k \<in> fst ` set ob then map fst ob else map fst ob @ [k])"
proof (induction ob)
  case Nil
  show ?case by simp
next
  case (Cons p ob)
  show ?case
  proof (cases "fst p = k")
    case True
    then show ?thesis by (cases p) simp
  next
    case False
    then have "k \<in> fst ` set (p # ob) \<longleftrightarrow> k \<in> fst ` set ob"
      by auto
    with False Cons.IH show ?thesis
      by (cases p) (simp del: set_simps image_insert)
  qed
qed

lemma distinct_obj_set: "distinct (map fst ob) \<Longrightarrow> distinct (map fst (obj_set ob k v))"
  by (simp add: keys_obj_set)

lemma mset_own_entries: "mset (own_entries ob) = mset ob"
  by (simp add: own_entries_def)

lemma set_own_entries: "set (own_entries ob) = set ob"
  using mset_own_entries [of ob] by (rule mset_eq_setD)

lemma distinct_own_entries:
  "distinct (map fst ob) \<Longrightarrow> distinct (map fst (own_entries ob))"
proof -
  have "mset (map fst (own_entries ob)) = mset (map fst ob)"
    by (simp add: mset_own_entries)
  then have "distinct (map fst (own_entries ob)) \<longleftrightarrow> distinct (map fst ob)"
    by (rule mset_eq_imp_distinct_iff)
  then show "distinct (map fst ob) \<Longrightarrow> distinct (map fst (own_entries ob))"
    by simp
qed

lemma own_entries_plain:
  "\<forall>kv\<in>set ob. \<not> is_array_index (fst kv) \<Longrightarrow> own_entries ob = ob"
  by (simp add: own_entries_def filter_empty_conv)

lemma map_result_all2: "map_result f xs = Inr ys \<Longrightarrow> list_all2 (\<lambda>x y. f x = Inr y) xs ys"
  by (induction xs arbitrary: ys) (auto split: sum.splits)

lemma foldl_sum: "foldl (\<lambda>sum e. sum + g e) (a::rat) es = a + sum_list (map g es)"
  by (induction es arbitrary: a) simp_all

lemma sum_list_mset_cong:
  assumes "mset xs = mset ys"
  shows "sum_list (map g xs) = (sum_list (map g ys) :: rat)"
proof -
  have "mset (map g xs) = mset (map g ys)"
    using assms by simp
  then have "sum_mset (mset (map g xs)) = sum_mset (mset (map g ys))"
    by (rule arg_cong)
  then show ?thesis
    by (simp only: sum_mset_sum_list)
qed

lemma totalHours_sum: "totalHours ob = sum_list (map (\<lambda>kv. entry_hours (snd kv)) ob)"
proof -
  have "sum_list (map (\<lambda>kv. entry_hours (snd kv)) (own_entries ob)) =
        sum_list (map (\<lambda>kv. entry_hours (snd kv)) ob)"
    using mset_own_entries [of ob] by (rule sum_list_mset_cong)
  then show ?thesis
    by (simp add: totalHours_def foldl_sum comp_def)
qed


section \<open>Properties of the grouping\<close>

lemma group_add_step:
  assumes d: "distinct (map fst g)"
    and m: "\<And>k. map_of g k =
              (if \<exists>y\<in>set ys. f y = Inr k then Some (filter (\<lambda>y. f y = Inr k) ys) else None)"
    and fx: "f x = Inr key"
  shows "distinct (map fst (group_add g key x))"
    and "map_of (group_add g key x) k =
           (if \<exists>y\<in>set (ys @ [x]). f y = Inr k
            then Some (filter (\<lambda>y. f y = Inr k) (ys @ [x])) else None)"
proof -
  show "distinct (map fst (group_add g key x))"
    using d by (simp add: group_add_def distinct_obj_set split: option.splits)
  show "map_of (group_add g key x) k =
           (if \<exists>y\<in>set (ys @ [x]). f y = Inr k
            then Some (filter (\<lambda>y. f y = Inr k) (ys @ [x])) else None)"
  proof (cases "k = key")
    case True
    show ?thesis
    proof (cases "map_of g key")
      case None
      with m [of key] have "filter (\<lambda>y. f y = Inr key) ys = []"
        by (auto simp: filter_empty_conv split: if_splits)
      with None True fx show ?thesis
        by (simp add: group_add_def map_of_obj_set)
    next
      case (Some vs)
      with m [of key] have "vs = filter (\<lambda>y. f y = Inr key) ys"
        by (simp split: if_splits)
      with Some True fx show ?thesis
        by (simp add: group_add_def map_of_obj_set)
    qed
  next
    case False
    then have "f x \<noteq> Inr k"
      using fx by simp
    with False m [of k] show ?thesis
      by (simp add: group_add_def map_of_obj_set split: option.splits)
  qed
qed

lemma groupBy_loop_grouped:
  assumes "groupBy_loop f xs g = Inr g'"
    and "distinct (map fst g)"
    and "\<And>k. map_of g k =
              (if \<exists>y\<in>set ys. f y = Inr k then Some (filter (\<lambda>y. f y = Inr k) ys) else None)"
  shows "distinct (map fst g') \<and>
         (\<forall>k. map_of g' k =
              (if \<exists>y\<in>set (ys @ xs). f y = Inr k
               then Some (filter (\<lambda>y. f y = Inr k) (ys @ xs)) else None))"
  using assms
proof (induction xs arbitrary: g ys)
  case Nil
  then show ?case by simp
next
  case (Cons x xs)
  from Cons.prems(1) obtain key where fx: "f x = Inr key"
    and rest: "groupBy_loop f xs (group_add g key x) = Inr g'"
    by (auto split: sum.splits)
  have "distinct (map fst g') \<and>
         (\<forall>k. map_of g' k =
              (if \<exists>y\<in>set ((ys @ [x]) @ xs). f y = Inr k
               then Some (filter (\<lambda>y. f y = Inr k) ((ys @ [x]) @ xs)) else None))"
    using rest group_add_step [of g ys f x key, OF Cons.prems(2) Cons.prems(3) fx]
    by (intro Cons.IH) blast+
  then show ?case by simp
qed

lemma groupBy_loop_defined:
  "groupBy_loop f xs g = Inr g' \<Longrightarrow> x \<in> set xs \<Longrightarrow> \<exists>k. f x = Inr k"
  by (induction xs arbitrary: g) (auto split: sum.splits)

lemma groupBy_groups:
  assumes "groupBy xs f = Inr g"
  shows "distinct (map fst g)"
    and "(k, vs) \<in> set g \<longleftrightarrow> vs \<noteq> [] \<and> vs = filter (\<lambda>y. f y = Inr k) xs"
proof -
  have inv: "distinct (map fst g) \<and>
         (\<forall>k. map_of g k =
              (if \<exists>y\<in>set ([] @ xs). f y = Inr k
               then Some (filter (\<lambda>y. f y = Inr k) ([] @ xs)) else None))"
    using assms by (intro groupBy_loop_grouped [of f xs "[]"]) (simp_all add: groupBy_def)
  then show d: "distinct (map fst g)"
    by simp
  have "(k, vs) \<in> set g \<longleftrightarrow> map_of g k = Some vs"
    using d by simp
  also have "\<dots> \<longleftrightarrow> (\<exists>y\<in>set xs. f y = Inr k) \<and> vs = filter (\<lambda>y. f y = Inr k) xs"
    using inv by auto
  also have "\<dots> \<longleftrightarrow> vs \<noteq> [] \<and> vs = filter (\<lambda>y. f y = Inr k) xs"
    by (auto simp: filter_empty_conv)
  finally show "(k, vs) \<in> set g \<longleftrightarrow> vs \<noteq> [] \<and> vs = filter (\<lambda>y. f y = Inr k) xs" .
qed


section \<open>Properties of the report\<close>

lemma list_all2_right: "list_all2 P xs ys \<Longrightarrow> y \<in> set ys \<Longrightarrow> \<exists>x\<in>set xs. P x y"
  by (induction rule: list_all2_induct) auto

lemma list_all2_left: "list_all2 P xs ys \<Longrightarrow> x \<in> set xs \<Longrightarrow> \<exists>y\<in>set ys. P x y"
  by (induction rule: list_all2_induct) auto

lemma list_all2_keys:
  "list_all2 (\<lambda>x y. f x = g y) xs ys \<Longrightarrow> map f xs = map g ys"
  by (induction rule: list_all2_induct) auto

lemma authorWork_of_Inr:
  assumes "authorWork_of cfg (k, vs) = Inr w"
  shows "authorWork.email w = k" and "commits w = length vs" and "vs \<noteq> []"
    and "hours w = fst (estimateHours cfg (map date vs))"
    and "\<exists>a. author (hd vs) = Some a \<and> authorWork.name w = author.name a"
  using assms by (auto simp: authorWork_of_def split: list.splits option.splits)

lemma authorWorks_groups:
  assumes "authorWorks cfg cs = Inr works"
  obtains g where "groupBy cs (commitEmail cfg) = Inr g"
    and "list_all2 (\<lambda>kv w. authorWork_of cfg kv = Inr w) (own_entries g) works"
  using assms by (auto simp: authorWorks_def split: sum.splits dest: map_result_all2)

lemma authorWorks_distinct:
  assumes "authorWorks cfg cs = Inr works"
  shows "distinct (map authorWork.email works)"
proof -
  from assms obtain g where g: "groupBy cs (commitEmail cfg) = Inr g"
    and all2: "list_all2 (\<lambda>kv w. authorWork_of cfg kv = Inr w) (own_entries g) works"
    by (rule authorWorks_groups)
  have "list_all2 (\<lambda>kv w. fst kv = authorWork.email w) (own_entries g) works"
    using all2 by (rule list_all2_mono) (auto dest: authorWork_of_Inr(1))
  then have "map fst (own_entries g) = map authorWork.email works"
    by (rule list_all2_keys)
  then show ?thesis
    using groupBy_groups(1) [OF g] distinct_own_entries [of g] by simp
qed

lemma authorWorks_member:
  assumes "authorWorks cfg cs = Inr works" and "w \<in> set works"
  shows "commits w = length (filter (\<lambda>c. commitEmail cfg c = Inr (authorWork.email w)) cs)"
    and "0 < commits w"
    and "hours w = fst (estimateHours cfg
           (map date (filter (\<lambda>c. commitEmail cfg c = Inr (authorWork.email w)) cs)))"
proof -
  from assms(1) obtain g where g: "groupBy cs (commitEmail cfg) = Inr g"
    and all2: "list_all2 (\<lambda>kv w. authorWork_of cfg kv = Inr w) (own_entries g) works"
    by (rule authorWorks_groups)
  from list_all2_right [OF all2 assms(2)] obtain k vs
    where kv: "(k, vs) \<in> set g" and w: "authorWork_of cfg (k, vs) = Inr w"
    by (auto simp: set_own_entries)
  have vs: "vs = filter (\<lambda>c. commitEmail cfg c = Inr k) cs"
    using groupBy_groups(2) [OF g, of k vs] kv by simp
  show "commits w = length (filter (\<lambda>c. commitEmail cfg c = Inr (authorWork.email w)) cs)"
    using authorWork_of_Inr(1,2) [OF w] vs by simp
  show "0 < commits w"
    using authorWork_of_Inr(2,3) [OF w] by simp
  show "hours w = fst (estimateHours cfg
           (map date (filter (\<lambda>c. commitEmail cfg c = Inr (authorWork.email w)) cs)))"
    using authorWork_of_Inr(1,4) [OF w] vs by simp
qed

lemma authorWorks_covers:
  assumes "authorWorks cfg cs = Inr works" and "c \<in> set cs"
  shows "\<exists>w\<in>set works. commitEmail cfg c = Inr (authorWork.email w)"
proof -
  from assms(1) obtain g where g: "groupBy cs (commitEmail cfg) = Inr g"
    and all2: "list_all2 (\<lambda>kv w. authorWork_of cfg kv = Inr w) (own_entries g) works"
    by (rule authorWorks_groups)
  from g assms(2) obtain k where k: "commitEmail cfg c = Inr k"
    using groupBy_loop_defined [of "commitEmail cfg" cs "[]" g c] by (auto simp: groupBy_def)
  then have "filter (\<lambda>c. commitEmail cfg c = Inr k) cs \<noteq> []"
    using assms(2) by (auto simp: filter_empty_conv)
  then have "(k, filter (\<lambda>c. commitEmail cfg c = Inr k) cs) \<in> set (own_entries g)"
    using groupBy_groups(2) [OF g, of k "filter (\<lambda>c. commitEmail cfg c = Inr k) cs"]
    by (simp add: set_own_entries)
  from list_all2_left [OF all2 this] obtain w
    where w: "w \<in> set works"
      and aw: "authorWork_of cfg (k, filter (\<lambda>c. commitEmail cfg c = Inr k) cs) = Inr w"
    by auto
  have "authorWork.email w = k"
    using aw by (rule authorWork_of_Inr(1))
  with w k show ?thesis
    by auto
qed

lemma foldl_obj_set_distinct:
  "distinct (map fst acc @ map authorWork.email ws) \<Longrightarrow>
     foldl (\<lambda>sw w. obj_set sw (authorWork.email w) (omit_email w)) acc ws =
       acc @ map (\<lambda>w. (authorWork.email w, omit_email w)) ws"
proof (induction ws arbitrary: acc)
  case Nil
  show ?case by simp
next
  case (Cons w ws)
  have new: "authorWork.email w \<notin> fst ` set acc"
    using Cons.prems by auto
  have "distinct (map fst (acc @ [(authorWork.email w, omit_email w)]) @ map authorWork.email ws)"
    using Cons.prems by auto
  from Cons.IH [OF this] show ?case
    by (simp add: obj_set_new [OF new])
qed

lemma sortedWork_authors_distinct:
  assumes "distinct (map authorWork.email works)"
  shows "sortedWork_authors works =
           map (\<lambda>w. (authorWork.email w, omit_email w)) (sort_key hours works)"
proof -
  have "mset (map authorWork.email (sort_key hours works)) = mset (map authorWork.email works)"
    by simp
  then have "distinct (map authorWork.email (sort_key hours works))"
    using assms mset_eq_imp_distinct_iff by blast
  then show ?thesis
    using foldl_obj_set_distinct [of "[]" "sort_key hours works"]
    by (simp add: sortedWork_authors_def)
qed

lemma totalHours_authors:
  assumes "distinct (map authorWork.email works)"
  shows "totalHours (sortedWork_authors works) = sum_list (map hours works)"
proof -
  have "totalHours (sortedWork_authors works) = sum_list (map hours (sort_key hours works))"
    by (simp add: totalHours_sum sortedWork_authors_distinct [OF assms] comp_def omit_email_def)
  also have "\<dots> = sum_list (map hours works)"
    by (rule sum_list_mset_cong) simp
  finally show ?thesis .
qed

lemma sortedWork_Inr:
  assumes "sortedWork cfg cs = Inr report"
  obtains works where "authorWorks cfg cs = Inr works"
    and "report = obj_set (map (\<lambda>w. (authorWork.email w, omit_email w)) (sort_key hours works))
                    ''total'' (TotalEntry (sum_list (map hours works)) (length cs))"
proof -
  from assms obtain works where works: "authorWorks cfg cs = Inr works"
    and rep: "report = obj_set (sortedWork_authors works) ''total''
                 (TotalEntry (totalHours (sortedWork_authors works)) (length cs))"
    by (auto simp: sortedWork_def Let_def split: sum.splits)
  have d: "distinct (map authorWork.email works)"
    using works by (rule authorWorks_distinct)
  have "report = obj_set (sortedWork_authors works) ''total''
                 (TotalEntry (sum_list (map hours works)) (length cs))"
    using rep by (simp only: totalHours_authors [OF d])
  then have "report = obj_set (map (\<lambda>w. (authorWork.email w, omit_email w)) (sort_key hours works))
                    ''total'' (TotalEntry (sum_list (map hours works)) (length cs))"
    by (simp only: sortedWork_authors_distinct [OF d])
  with works show ?thesis
    by (rule that)
qed


lemma distinct_sorted_emails:
  assumes "distinct (map authorWork.email works)"
  shows "distinct (map authorWork.email (sort_key hours works))"
proof -
  have "mset (map authorWork.email (sort_key hours works)) = mset (map authorWork.email works)"
    by simp
  then show ?thesis
    using assms mset_eq_imp_distinct_iff by blast
qed

lemma getCommits_distinct:
  assumes "getCommits cfg open_repo path b = Inr cs"
  shows "distinct (map sha cs)"
proof -
  from assms obtain raw where "cs = uniqueFiltered cfg raw"
    by (auto simp: getCommits_def split: option.splits sum.splits)
  then show ?thesis
    by (simp add: uniqueFiltered_def uniq_def distinct_map_filter distinct_baseUniq)
qed

text \<open>
  What holds of every successful run: the \<open>commits\<close> field of every author's work is
  the number of commits whose canonical email is the author's; the \<open>total\<close> entry of
  the report holds the sum of the hours of all authors' works and the number of commits,
  which is the number of distinct commit ids; and the work of an author is the entry
  stored under the email, unless that email is the key \<open>total\<close>.
\<close>

lemma works_invariants:
  assumes "getCommits cfg open_repo path b = Inr cs"
    and "sortedWork cfg cs = Inr report"
  shows "\<exists>works. authorWorks cfg cs = Inr works
           \<and> (\<forall>w\<in>set works.
                 commits w =
                   length (filter (\<lambda>c. commitEmail cfg c = Inr (authorWork.email w)) cs))
           \<and> (\<forall>w\<in>set works. authorWork.email w \<noteq> ''total'' \<longrightarrow>
                 map_of report (authorWork.email w) =
                   Some (AuthorEntry (authorWork.name w) (hours w) (commits w)))
           \<and> map_of report ''total'' =
                 Some (TotalEntry (sum_list (map hours works)) (length cs))
           \<and> length cs = card (sha ` set cs)"
proof -
  from assms(2) obtain works where works: "authorWorks cfg cs = Inr works"
    and rep: "report =
        obj_set (map (\<lambda>w. (authorWork.email w, omit_email w)) (sort_key hours works))
          ''total'' (TotalEntry (sum_list (map hours works)) (length cs))"
    by (rule sortedWork_Inr)
  have d: "distinct (map authorWork.email (sort_key hours works))"
    using works by (intro distinct_sorted_emails authorWorks_distinct)
  have entry: "map_of report (authorWork.email w) =
      Some (AuthorEntry (authorWork.name w) (hours w) (commits w))"
    if "w \<in> set works" "authorWork.email w \<noteq> ''total''" for w
  proof -
    have "map_of (map (\<lambda>w. (authorWork.email w, omit_email w)) (sort_key hours works))
            (authorWork.email w) = Some (omit_email w)"
      using d that(1) by (intro map_of_is_SomeI) (auto simp: comp_def)
    then show ?thesis
      using that(2) by (simp add: rep map_of_obj_set omit_email_def)
  qed
  have "card (sha ` set cs) = length cs"
    using getCommits_distinct [OF assms(1)] distinct_card [of "map sha cs"] by simp
  then show ?thesis
    using works authorWorks_member(1) [OF works] entry
    by (auto simp: rep map_of_obj_set)
qed


lemma ex_team_commits:
  "getCommits config_default (ex_open ex_team_history) ''.'' None = Inr ex_team"
  by code_simp

lemma ex_team_works:
  "authorWorks config_default ex_team =
     Inr [\<lparr> email = ''alice@example.org'', name = ''Alice'', hours = 4 / 3, commits = 3 \<rparr>,
          \<lparr> email = ''bob@example.org'', name = ''Bob'', hours = 1 / 2, commits = 1 \<rparr>]"
  by code_simp

lemma ex_team_report:
  "sortedWork config_default ex_team =
     Inr [(''bob@example.org'', AuthorEntry ''Bob'' (1 / 2) 1),
          (''alice@example.org'', AuthorEntry ''Alice'' (4 / 3) 3),
          (''total'', TotalEntry (11 / 6) 4)]"
  by code_simp

text \<open>
  C8, at an author whose canonical email is \<open>total\<close>. The claim asks that the report
  hold every author's work and that the hours of its \<open>total\<close> entry be the sum of the
  hours of its authors' entries. The assignment \<open>sortedWork.total = ...\<close> replaces
  the entry of that author: the report holds Bob's entry alone, with \<open>1/2\<close> hours,
  beside a \<open>total\<close> entry of \<open>5/4\<close> hours and \<open>3\<close> commits, and the work of the
  author with two commits and \<open>3/4\<close> hours is lost.
\<close>

theorem total_email_collision:
  "getCommits config_default (ex_open ex_total_history) ''.'' None = Inr ex_total_team
   \<and> authorWorks config_default ex_total_team =
       Inr [\<lparr> email = ''total'', name = ''Tot'', hours = 3 / 4, commits = 2 \<rparr>,
            \<lparr> email = ''bob@example.org'', name = ''Bob'', hours = 1 / 2, commits = 1 \<rparr>]
   \<and> sortedWork config_default ex_total_team =
       Inr [(''bob@example.org'', AuthorEntry ''Bob'' (1 / 2) 1),
            (''total'', TotalEntry (5 / 4) 3)]
   \<and> extractData config_default (ex_open ex_total_history) ''.'' = Inr (5 / 4)"
  by code_simp

section \<open>What extractData resolves to\<close>

lemma own_entries_report:
  assumes "\<forall>kv\<in>set authors. fst kv \<noteq> ''total'' \<and> \<not> is_array_index (fst kv)"
  shows "own_entries (obj_set authors ''total'' t) = authors @ [(''total'', t)]"
proof -
  have "''total'' \<notin> fst ` set authors"
    using assms by auto
  then have new: "obj_set authors ''total'' t = authors @ [(''total'', t)]"
    by (rule obj_set_new)
  have "\<not> is_array_index ''total''"
    by (simp add: is_array_index_def is_digit_def)
  then have "\<forall>kv\<in>set (authors @ [(''total'', t)]). \<not> is_array_index (fst kv)"
    using assms by auto
  then show ?thesis
    unfolding new by (rule own_entries_plain)
qed

text \<open>
  C2, as the code has it. \<open>extractData\<close> builds the report object and resolves to the
  hours of its \<open>total\<close> entry alone, which is the sum of the hours of the authors'
  works. The report it builds holds one work per canonical email; when no canonical
  email is \<open>total\<close> or an array index, the report enumerates the authors' entries
  (name, hours, commits) in ascending order of hours, followed by the \<open>total\<close> entry
  (hours, commits).
\<close>

theorem extractData_total_hours:
  assumes "extractData cfg open_repo path = Inr h"
  shows "\<exists>cs works report.
           getCommits cfg open_repo path (branch cfg) = Inr cs
           \<and> authorWorks cfg cs = Inr works
           \<and> sortedWork cfg cs = Inr report
           \<and> map_of report ''total'' = Some (TotalEntry h (length cs))
           \<and> h = sum_list (map hours works)
           \<and> authorWork.email ` set works = {e. \<exists>c\<in>set cs. commitEmail cfg c = Inr e}
           \<and> distinct (map authorWork.email works)
           \<and> sorted (map hours (sort_key hours works))
           \<and> ((\<forall>w\<in>set works. authorWork.email w \<noteq> ''total''
                               \<and> \<not> is_array_index (authorWork.email w)) \<longrightarrow>
                own_entries report =
                  map (\<lambda>w. (authorWork.email w,
                             AuthorEntry (authorWork.name w) (hours w) (commits w)))
                    (sort_key hours works)
                  @ [(''total'', TotalEntry h (length cs))])"
proof -
  from assms obtain cs report total_entry
    where cs: "getCommits cfg open_repo path (branch cfg) = Inr cs"
      and report: "sortedWork cfg cs = Inr report"
      and total: "map_of report ''total'' = Some total_entry"
      and h: "h = entry_hours total_entry"
    by (auto simp: extractData_def split: sum.splits option.splits)
  from report obtain works where works: "authorWorks cfg cs = Inr works"
    and rep: "report =
        obj_set (map (\<lambda>w. (authorWork.email w, omit_email w)) (sort_key hours works))
          ''total'' (TotalEntry (sum_list (map hours works)) (length cs))"
    by (rule sortedWork_Inr)
  have sum: "h = sum_list (map hours works)"
    using total h by (auto simp: rep map_of_obj_set)
  have keys: "authorWork.email ` set works = {e. \<exists>c\<in>set cs. commitEmail cfg c = Inr e}"
  proof (intro equalityI subsetI)
    fix e assume "e \<in> authorWork.email ` set works"
    then obtain w where w: "w \<in> set works" and e: "e = authorWork.email w"
      by auto
    from authorWorks_member(1,2) [OF works w]
    have "filter (\<lambda>c. commitEmail cfg c = Inr e) cs \<noteq> []"
      unfolding e by auto
    then show "e \<in> {e. \<exists>c\<in>set cs. commitEmail cfg c = Inr e}"
      by (auto simp: filter_empty_conv)
  next
    fix e assume "e \<in> {e. \<exists>c\<in>set cs. commitEmail cfg c = Inr e}"
    then obtain c where "c \<in> set cs" and "commitEmail cfg c = Inr e"
      by auto
    with authorWorks_covers [OF works, of c] show "e \<in> authorWork.email ` set works"
      by auto
  qed
  have order: "own_entries report =
      map (\<lambda>w. (authorWork.email w, AuthorEntry (authorWork.name w) (hours w) (commits w)))
        (sort_key hours works)
      @ [(''total'', TotalEntry h (length cs))]"
    if "\<forall>w\<in>set works. authorWork.email w \<noteq> ''total'' \<and> \<not> is_array_index (authorWork.email w)"
  proof -
    have "\<forall>kv\<in>set (map (\<lambda>w. (authorWork.email w, omit_email w)) (sort_key hours works)).
            fst kv \<noteq> ''total'' \<and> \<not> is_array_index (fst kv)"
      using that by auto
    from own_entries_report [OF this] show ?thesis
      by (simp add: rep sum omit_email_def)
  qed
  show ?thesis
    using cs works report sum keys order authorWorks_distinct [OF works]
    by (intro exI [of _ cs] exI [of _ works] exI [of _ report])
       (simp add: rep map_of_obj_set)
qed

theorem extractData_total_hours_witness:
  "extractData config_default (ex_open ex_team_history) ''.'' = Inr (11 / 6)
   \<and> own_entries [(''bob@example.org'', AuthorEntry ''Bob'' (1 / 2) 1),
                  (''alice@example.org'', AuthorEntry ''Alice'' (4 / 3) 3),
                  (''total'', TotalEntry (11 / 6) 4)] =
       [(''bob@example.org'', AuthorEntry ''Bob'' (1 / 2) 1),
        (''alice@example.org'', AuthorEntry ''Alice'' (4 / 3) 3),
        (''total'', TotalEntry (11 / 6) 4)]"
proof -
  have run: "extractData config_default (ex_open ex_team_history) ''.'' =
      Inr (11 / 6)"
    by code_simp
  have none: "branch config_default = None"
    by (simp add: config_default_def)
  from extractData_total_hours [OF run]
  obtain cs works report
    where "getCommits config_default (ex_open ex_team_history) ''.''
             (branch config_default) = Inr cs"
      and "authorWorks config_default cs = Inr works"
      and "sortedWork config_default cs = Inr report"
      and order: "(\<forall>w\<in>set works. authorWork.email w \<noteq> ''total''
                               \<and> \<not> is_array_index (authorWork.email w)) \<longrightarrow>
                own_entries report =
                  map (\<lambda>w. (authorWork.email w,
                             AuthorEntry (authorWork.name w) (hours w) (commits w)))
                    (sort_key hours works)
                  @ [(''total'', TotalEntry (11 / 6) (length cs))]"
    by blast
  then have cs: "cs = ex_team"
    and works: "works =
        [\<lparr> email = ''alice@example.org'', name = ''Alice'', hours = 4 / 3, commits = 3 \<rparr>,
         \<lparr> email = ''bob@example.org'', name = ''Bob'', hours = 1 / 2, commits = 1 \<rparr>]"
    and report: "report = [(''bob@example.org'', AuthorEntry ''Bob'' (1 / 2) 1),
                  (''alice@example.org'', AuthorEntry ''Alice'' (4 / 3) 3),
                  (''total'', TotalEntry (11 / 6) 4)]"
    using ex_team_commits ex_team_works ex_team_report none by simp_all
  have "\<forall>w\<in>set works. authorWork.email w \<noteq> ''total''
          \<and> \<not> is_array_index (authorWork.email w)"
    unfolding works by (simp add: is_array_index_def is_digit_def)
  with order have "own_entries report =
      map (\<lambda>w. (authorWork.email w, AuthorEntry (authorWork.name w) (hours w) (commits w)))
        (sort_key hours works)
      @ [(''total'', TotalEntry (11 / 6) (length cs))]"
    by blast
  then show ?thesis
    using run unfolding report works cs by (simp add: ex_team_def)
qed

text \<open>
  C2, as stated, fails: the value \<open>extractData\<close> hands back is the number
  \<open>sortedWork.total.hours\<close>. Two repositories whose reports differ (one commit by
  Alice, one commit by Bob) give the caller the same value.
\<close>

theorem extractData_projection_counterexample:
  "getCommits config_default
      (ex_open (Commit (ex_commit ''a1'' 0 ''first'') End)) ''.'' None =
     Inr [ex_commit ''a1'' 0 ''first'']
   \<and> getCommits config_default
      (ex_open (Commit (ex_commit_by ex_bob ''b1'' 0 ''first'') End)) ''.'' None =
     Inr [ex_commit_by ex_bob ''b1'' 0 ''first'']
   \<and> sortedWork config_default [ex_commit ''a1'' 0 ''first''] =
     Inr [(''alice@example.org'', AuthorEntry ''Alice'' (1 / 2) 1),
          (''total'', TotalEntry (1 / 2) 1)]
   \<and> sortedWork config_default [ex_commit_by ex_bob ''b1'' 0 ''first''] =
     Inr [(''bob@example.org'', AuthorEntry ''Bob'' (1 / 2) 1),
          (''total'', TotalEntry (1 / 2) 1)]
   \<and> sortedWork config_default [ex_commit ''a1'' 0 ''first''] \<noteq>
       sortedWork config_default [ex_commit_by ex_bob ''b1'' 0 ''first'']
   \<and> extractData config_default
        (ex_open (Commit (ex_commit ''a1'' 0 ''first'') End)) ''.'' = Inr (1 / 2)
   \<and> extractData config_default
        (ex_open (Commit (ex_commit_by ex_bob ''b1'' 0 ''first'') End)) ''.'' =
       Inr (1 / 2)"
  by code_simp

end
